theory Spec2Isabelle
  imports Complex_Main
begin

section \<open>An n-gram language model and its corpus helpers\<close>

text \<open>
  The development embeds \<^verbatim>\<open>ngram_model.py\<close> (class \<^verbatim>\<open>TrigramModel\<close>) and
  \<^verbatim>\<open>utils.py\<close> (\<^verbatim>\<open>strip_gutenberg_header_footer\<close>).

  Conventions of the embedding.
  \<^item> A Python \<^verbatim>\<open>str\<close> is a \<open>string\<close>; a token is a \<open>string\<close>; a context tuple is a
    \<open>string list\<close>.  The character classes of \<^verbatim>\<open>str.strip\<close>, \<^verbatim>\<open>str.lower\<close> and of the
    regular expressions are the ones Python uses on ASCII text; a character with a
    code of 128 or more is passed through as a character that is neither white space,
    a word character nor a cased letter.  Text outside ASCII is therefore outside the
    model.
  \<^item> A Python \<^verbatim>\<open>dict\<close> is an association list in insertion order: the first pair with a
    key is the binding of the key, a new key goes to the end, an assignment to an
    existing key keeps its position.  The order matters for the cumulative walk of the
    sampler.
  \<^item> Python integers are \<open>int\<close>.
  \<^item> The pseudo-random generator is not part of the repository.  Its state has an
    arbitrary type \<open>'g\<close> and the call \<^verbatim>\<open>random.uniform(0, total)\<close> is a parameter
    \<open>U :: 'g \<Rightarrow> int \<Rightarrow> real \<times> 'g\<close> that returns the drawn number and the next state.
    \<open>walk\<close>, \<open>sample_next_word\<close> and \<open>generate\<close> read floats as the real numbers they
    denote; the running sum of the walk is exact, which is what float addition gives
    for counts below \<open>2 ^ 53\<close>.  \<open>walk_float\<close> and \<open>sample_next_word_float\<close> are the same
    code on floats, with the conversion that raises, the rounding and the infinities.
  \<^item> Methods that mutate \<^verbatim>\<open>self\<close> take the model and return the new model.
\<close>

subsection \<open>Dictionaries in insertion order\<close>

type_synonym ('k, 'v) dict = "('k \<times> 'v) list"

definition has_key :: "('k, 'v) dict \<Rightarrow> 'k \<Rightarrow> bool" where
  \<comment> \<open>\<^verbatim>\<open>k in d\<close>\<close>
  "has_key d k = (k \<in> set (map fst d))"

definition dict_get :: "('k, 'v) dict \<Rightarrow> 'k \<Rightarrow> 'v \<Rightarrow> 'v" where
  \<comment> \<open>\<^verbatim>\<open>d.get(k, default)\<close>\<close>
  "dict_get d k dflt = (case map_of d k of Some v \<Rightarrow> v | None \<Rightarrow> dflt)"

fun dict_set :: "('k, 'v) dict \<Rightarrow> 'k \<Rightarrow> 'v \<Rightarrow> ('k, 'v) dict" where
  \<comment> \<open>\<^verbatim>\<open>d[k] = v\<close>\<close>
  "dict_set [] k v = [(k, v)]"
| "dict_set ((k', v') # d) k v =
     (if k' = k then (k, v) # d else (k', v') # dict_set d k v)"

definition dd_get :: "('k, 'v) dict \<Rightarrow> 'v \<Rightarrow> 'k \<Rightarrow> 'v \<times> ('k, 'v) dict" where
  \<comment> \<open>\<^verbatim>\<open>d[k]\<close> on a \<^verbatim>\<open>defaultdict\<close> with default \<open>dflt\<close>: a missing key is inserted.\<close>
  "dd_get d dflt k =
     (case map_of d k of Some v \<Rightarrow> (v, d) | None \<Rightarrow> (dflt, d @ [(k, dflt)]))"

definition dd_incr :: "('k, int) dict \<Rightarrow> 'k \<Rightarrow> ('k, int) dict" where
  \<comment> \<open>\<^verbatim>\<open>d[k] += 1\<close> on a \<^verbatim>\<open>defaultdict(int)\<close>: read (inserting 0), add, store.\<close>
  "dd_incr d k = (case dd_get d 0 k of (old, d') \<Rightarrow> dict_set d' k (old + 1))"

definition values_sum :: "('k, int) dict \<Rightarrow> int" where
  \<comment> \<open>\<^verbatim>\<open>sum(d.values())\<close>\<close>
  "values_sum d = sum_list (map snd d)"

subsection \<open>Strings\<close>

definition is_space :: "char \<Rightarrow> bool" where
  \<comment> \<open>\<^verbatim>\<open>str.isspace\<close> on ASCII: tab, LF, VT, FF, CR, FS, GS, RS, US and the space\<close>
  "is_space c = ((of_char c :: nat) \<in> {9, 10, 11, 12, 13, 28, 29, 30, 31, 32})"

definition is_word :: "char \<Rightarrow> bool" where
  \<comment> \<open>\<^verbatim>\<open>\w\<close> on ASCII: a letter, a digit or the underscore\<close>
  "is_word c =
     (let k = (of_char c :: nat)
      in (48 \<le> k \<and> k \<le> 57) \<or> (65 \<le> k \<and> k \<le> 90) \<or> k = 95 \<or> (97 \<le> k \<and> k \<le> 122))"

definition is_delim :: "char \<Rightarrow> bool" where
  \<comment> \<open>the class \<^verbatim>\<open>[.!?]\<close>\<close>
  "is_delim c = (c = CHR ''.'' \<or> c = CHR ''!'' \<or> c = CHR ''?'')"

definition lower_char :: "char \<Rightarrow> char" where
  "lower_char c =
     (let k = (of_char c :: nat) in if 65 \<le> k \<and> k \<le> 90 then char_of (k + 32) else c)"

definition lower :: "string \<Rightarrow> string" where
  \<comment> \<open>\<^verbatim>\<open>s.lower()\<close>\<close>
  "lower s = map lower_char s"

definition strip :: "string \<Rightarrow> string" where
  \<comment> \<open>\<^verbatim>\<open>s.strip()\<close>\<close>
  "strip s = rev (dropWhile is_space (rev (dropWhile is_space s)))"

function re_split :: "string \<Rightarrow> string list" where
  \<comment> \<open>\<^verbatim>\<open>re.split(r"[.!?]+", s)\<close>: the pieces between the maximal runs of delimiters\<close>
  "re_split s =
     (let piece = takeWhile (\<lambda>c. \<not> is_delim c) s;
          rest = dropWhile (\<lambda>c. \<not> is_delim c) s
      in if rest = [] then [piece] else piece # re_split (dropWhile is_delim rest))"
  by pat_completeness auto

function findall_words :: "string \<Rightarrow> string list" where
  \<comment> \<open>\<^verbatim>\<open>re.findall(r"\b\w+\b", s)\<close>: the maximal runs of word characters\<close>
  "findall_words s =
     (let s' = dropWhile (\<lambda>c. \<not> is_word c) s
      in if s' = [] then []
         else takeWhile is_word s' # findall_words (dropWhile is_word s'))"
  by pat_completeness auto

lemma length_dropWhile_hd:
  "xs \<noteq> [] \<Longrightarrow> P (hd xs) \<Longrightarrow> length (dropWhile P xs) < length xs"
  by (cases xs) (simp_all add: le_imp_less_Suc length_dropWhile_le)

lemma length_dropWhile_twice:
  assumes "dropWhile (\<lambda>c. \<not> P c) s \<noteq> []"
  shows "length (dropWhile P (dropWhile (\<lambda>c. \<not> P c) s)) < length s"
proof -
  let ?r = "dropWhile (\<lambda>c. \<not> P c) s"
  from assms have "P (hd ?r)"
    using hd_dropWhile [of "\<lambda>c. \<not> P c" s] by simp
  with assms have "length (dropWhile P ?r) < length ?r"
    by (rule length_dropWhile_hd)
  also have "length ?r \<le> length s"
    by (rule length_dropWhile_le)
  finally show ?thesis .
qed

termination re_split
  by (relation "measure length") (simp_all add: length_dropWhile_twice)

termination findall_words
  by (relation "measure length") (simp_all add: length_dropWhile_twice)

declare re_split.simps [simp del] findall_words.simps [simp del]

fun join :: "string \<Rightarrow> string list \<Rightarrow> string" where
  \<comment> \<open>\<^verbatim>\<open>sep.join(xs)\<close>\<close>
  "join sep [] = []"
| "join sep [x] = x"
| "join sep (x # y # ys) = x @ sep @ join sep (y # ys)"

subsection \<open>The model\<close>

definition START_TOKEN :: string where "START_TOKEN = ''<s>''"
definition END_TOKEN :: string where "END_TOKEN = ''</s>''"
definition UNK_TOKEN :: string where "UNK_TOKEN = ''<unk>''"

type_synonym ngram_context = "string list"

record model =
  n :: int
  min_count :: int
  counts :: "(ngram_context, (string, int) dict) dict"
  context_totals :: "(ngram_context, int) dict"
  vocab :: "string set"
  trained :: bool

datatype error = ValueError

definition TrigramModel :: "int \<Rightarrow> int \<Rightarrow> error + model" where
  \<comment> \<open>\<^verbatim>\<open>__init__\<close>\<close>
  "TrigramModel n0 min_count0 =
     (if n0 < 2 then Inl ValueError
      else Inr \<lparr>n = n0, min_count = min_count0, counts = [], context_totals = [],
                vocab = {UNK_TOKEN, END_TOKEN, START_TOKEN}, trained = False\<rparr>)"

definition reset_model_state :: "model \<Rightarrow> model" where
  "reset_model_state m =
     m\<lparr>counts := [], context_totals := [],
       vocab := {START_TOKEN, END_TOKEN, UNK_TOKEN}, trained := False\<rparr>"

definition prepare_sentences :: "string \<Rightarrow> string list list" where
  "prepare_sentences text =
     (let lowered = lower text;
          sentences = re_split lowered
      in filter (\<lambda>tokens. tokens \<noteq> []) (map findall_words sentences))"

definition Counter :: "string list \<Rightarrow> (string, int) dict" where
  \<comment> \<open>\<^verbatim>\<open>Counter(xs)\<close>: one increment per element, in order\<close>
  "Counter xs = foldl dd_incr [] xs"

definition build_vocabulary :: "model \<Rightarrow> string list list \<Rightarrow> model" where
  "build_vocabulary m sentences =
     (let flat_tokens = concat sentences;
          frequency = Counter flat_tokens;
          vocab0 = set (map fst (filter (\<lambda>(token, count). count \<ge> min_count m) frequency));
          vocab1 = (if vocab0 = {} then set (map fst frequency) else vocab0)
      in m\<lparr>vocab := vocab1 \<union> {START_TOKEN, END_TOKEN, UNK_TOKEN}\<rparr>)"

definition normalize_sentence :: "model \<Rightarrow> string list \<Rightarrow> string list" where
  "normalize_sentence m sentence =
     map (\<lambda>token. if token \<in> vocab m then token else UNK_TOKEN) sentence"

definition count_window :: "string list \<Rightarrow> model \<Rightarrow> nat \<Rightarrow> model" where
  \<comment> \<open>the body of the loop of \<^verbatim>\<open>_update_counts\<close> at index \<open>idx\<close>\<close>
  "count_window tokens m idx =
     (let context = take (nat (n m - 1)) (drop idx tokens);
          target = tokens ! (idx + nat (n m - 1))
      in case dd_get (counts m) [] context of
           (inner, counts1) \<Rightarrow>
             m\<lparr>counts := dict_set counts1 context (dd_incr inner target),
               context_totals := dd_incr (context_totals m) context\<rparr>)"

definition update_counts :: "model \<Rightarrow> string list \<Rightarrow> model" where
  "update_counts m tokens =
     foldl (count_window tokens) m [0 ..< nat (int (length tokens) - (n m - 1))]"

definition fit_sentence :: "model \<Rightarrow> string list \<Rightarrow> model" where
  \<comment> \<open>the body of the loop of \<^verbatim>\<open>fit\<close>\<close>
  "fit_sentence m sentence =
     (let normalized_sentence = normalize_sentence m sentence;
          padded = replicate (nat (n m - 1)) START_TOKEN @ normalized_sentence @ [END_TOKEN]
      in update_counts m padded)"

definition fit :: "model \<Rightarrow> string \<Rightarrow> model" where
  "fit m0 text =
     (let stripped = strip text;
          m = reset_model_state m0
      in if stripped = [] then m
         else let sentences = prepare_sentences stripped
              in if sentences = [] then m
                 else (foldl fit_sentence (build_vocabulary m sentences) sentences)
                        \<lparr>trained := True\<rparr>)"

fun walk :: "(string, int) dict \<Rightarrow> real \<Rightarrow> real \<Rightarrow> string" where
  \<comment> \<open>the cumulative loop of \<^verbatim>\<open>_sample_next_word\<close>\<close>
  "walk [] cumulative threshold = END_TOKEN"
| "walk ((word, count) # rest) cumulative threshold =
     (if cumulative + of_int count \<ge> threshold then word
      else walk rest (cumulative + of_int count) threshold)"

definition sample_known ::
  "('g \<Rightarrow> int \<Rightarrow> real \<times> 'g) \<Rightarrow> model \<Rightarrow> ngram_context \<Rightarrow> 'g \<Rightarrow> string \<times> model \<times> 'g" where
  \<comment> \<open>\<^verbatim>\<open>_sample_next_word\<close> from \<^verbatim>\<open>context_counts = self.counts[context]\<close> on\<close>
  "sample_known U m context g =
     (case dd_get (counts m) [] context of
        (context_counts, counts1) \<Rightarrow>
          (let m1 = m\<lparr>counts := counts1\<rparr>;
               total = dict_get (context_totals m1) context (values_sum context_counts)
           in if total = 0 then (END_TOKEN, m1, g)
              else case U g total of
                     (threshold, g1) \<Rightarrow> (walk context_counts 0 threshold, m1, g1)))"

definition sample_next_word ::
  "('g \<Rightarrow> int \<Rightarrow> real \<times> 'g) \<Rightarrow> model \<Rightarrow> ngram_context \<Rightarrow> 'g \<Rightarrow> string \<times> model \<times> 'g" where
  "sample_next_word U m context g =
     (if \<not> has_key (counts m) context then
        (let context1 = replicate (nat (n m - 1)) START_TOKEN
         in if \<not> has_key (counts m) context1 then (END_TOKEN, m, g)
            else sample_known U m context1 g)
      else sample_known U m context g)"

fun generate_loop ::
  "('g \<Rightarrow> int \<Rightarrow> real \<times> 'g) \<Rightarrow> nat \<Rightarrow> model \<Rightarrow> ngram_context \<Rightarrow> string list \<Rightarrow> 'g
     \<Rightarrow> string list \<times> model \<times> 'g" where
  \<comment> \<open>the loop of \<^verbatim>\<open>generate\<close>, with the number of iterations left\<close>
  "generate_loop U 0 m context generated g = (generated, m, g)"
| "generate_loop U (Suc k) m context generated g =
     (case sample_next_word U m context g of
        (next_word, m1, g1) \<Rightarrow>
          if next_word = END_TOKEN then (generated, m1, g1)
          else generate_loop U k m1 (drop 1 context @ [next_word])
                 (generated @ [next_word]) g1)"

definition generate ::
  "('g \<Rightarrow> int \<Rightarrow> real \<times> 'g) \<Rightarrow> model \<Rightarrow> int \<Rightarrow> 'g \<Rightarrow> string \<times> model \<times> 'g" where
  "generate U m max_length g =
     (if \<not> trained m \<or> counts m = [] then ([], m, g)
      else case generate_loop U (nat max_length) m
                  (replicate (nat (n m - 1)) START_TOKEN) [] g of
             (generated, m1, g1) \<Rightarrow> (join '' '' generated, m1, g1))"

subsection \<open>Facts about dictionaries\<close>

lemma has_key_map_of: "has_key d k \<longleftrightarrow> map_of d k \<noteq> None"
  by (simp add: has_key_def map_of_eq_None_iff)

lemma map_of_dict_set: "map_of (dict_set d k v) = (map_of d)(k \<mapsto> v)"
  by (induction d k v rule: dict_set.induct) (auto simp: fun_eq_iff)

lemma keys_dict_set:
  "map fst (dict_set d k v) = (if has_key d k then map fst d else map fst d @ [k])"
  by (induction d k v rule: dict_set.induct) (auto simp: has_key_def)

lemma distinct_dict_set:
  "distinct (map fst d) \<Longrightarrow> distinct (map fst (dict_set d k v))"
  by (simp add: keys_dict_set has_key_def)

lemma set_dict_set: "set (dict_set d k v) \<subseteq> insert (k, v) (set d)"
  by (induction d k v rule: dict_set.induct) auto

lemma dict_set_nonempty: "dict_set d k v \<noteq> []"
  by (cases d) (auto split: if_splits)

lemma dict_set_append_absent:
  "map_of d k = None \<Longrightarrow> dict_set (d @ [(k, w)]) k v = dict_set d k v"
  by (induction d) (auto split: if_splits)

lemma values_sum_dict_set:
  "values_sum (dict_set d k v) = values_sum d - dict_get d k 0 + v"
  by (induction d k v rule: dict_set.induct) (auto simp: values_sum_def dict_get_def)

lemma dd_incr_eq: "dd_incr d k = dict_set d k (dict_get d k 0 + 1)"
  by (auto simp: dd_incr_def dd_get_def dict_get_def dict_set_append_absent split: option.splits)

lemma values_sum_dd_incr: "values_sum (dd_incr d k) = values_sum d + 1"
  by (simp add: dd_incr_eq values_sum_dict_set)

lemma map_of_dd_incr: "map_of (dd_incr d k) = (map_of d)(k \<mapsto> dict_get d k 0 + 1)"
  by (simp add: dd_incr_eq map_of_dict_set)

lemma distinct_dd_incr: "distinct (map fst d) \<Longrightarrow> distinct (map fst (dd_incr d k))"
  by (simp add: dd_incr_eq distinct_dict_set)

lemma foldl_invariant:
  "P a \<Longrightarrow> (\<And>b x. P b \<Longrightarrow> P (f b x)) \<Longrightarrow> P (foldl f a xs)"
  by (induction xs arbitrary: a) auto

subsection \<open>The tables stay consistent\<close>

definition tables_inv :: "model \<Rightarrow> bool" where
  "tables_inv m \<longleftrightarrow>
     distinct (map fst (counts m)) \<and>
     (\<forall>c. map_of (context_totals m) c = map_option values_sum (map_of (counts m) c)) \<and>
     (\<forall>e \<in> set (counts m).
        snd e \<noteq> [] \<and> distinct (map fst (snd e)) \<and> (\<forall>p \<in> set (snd e). 1 \<le> snd p))"

lemma count_window_eq:
  "count_window tokens m idx =
     (let c = take (nat (n m - 1)) (drop idx tokens);
          t = tokens ! (idx + nat (n m - 1))
      in m\<lparr>counts := dict_set (counts m) c (dd_incr (dict_get (counts m) c []) t),
           context_totals := dd_incr (context_totals m) c\<rparr>)"
  by (simp add: count_window_def Let_def dd_get_def dict_get_def dict_set_append_absent
      split: option.splits)

lemma dict_get_nonneg:
  "\<forall>p \<in> set d. 1 \<le> snd p \<Longrightarrow> 0 \<le> dict_get d k (0::int)"
  by (auto simp: dict_get_def split: option.splits dest!: map_of_SomeD)

lemma dd_incr_positive:
  assumes "\<forall>p \<in> set d. 1 \<le> snd p"
  shows "\<forall>p \<in> set (dd_incr d k). 1 \<le> snd p"
proof
  fix p assume "p \<in> set (dd_incr d k)"
  then have "p = (k, dict_get d k 0 + 1) \<or> p \<in> set d"
    using set_dict_set [of d k "dict_get d k 0 + 1"] by (auto simp: dd_incr_eq)
  with assms dict_get_nonneg [OF assms, of k] show "1 \<le> snd p"
    by auto
qed

lemma dd_incr_nonempty: "dd_incr d k \<noteq> []"
  by (simp add: dd_incr_eq dict_set_nonempty)

lemma tables_inv_count_window:
  assumes "tables_inv m"
  shows "tables_inv (count_window tokens m idx)"
proof -
  define c where "c = take (nat (n m - 1)) (drop idx tokens)"
  define t where "t = tokens ! (idx + nat (n m - 1))"
  define inner where "inner = dict_get (counts m) c []"
  have eq: "count_window tokens m idx =
      m\<lparr>counts := dict_set (counts m) c (dd_incr inner t),
        context_totals := dd_incr (context_totals m) c\<rparr>"
    by (simp add: count_window_eq c_def t_def inner_def Let_def)
  from assms have tot: "map_of (context_totals m) k = map_option values_sum (map_of (counts m) k)" for k
    by (simp add: tables_inv_def)
  have inner_ok: "distinct (map fst inner) \<and> (\<forall>p \<in> set inner. 1 \<le> snd p)"
  proof (cases "map_of (counts m) c")
    case None
    then show ?thesis by (simp add: inner_def dict_get_def)
  next
    case (Some d)
    then have "inner = d" and "(c, d) \<in> set (counts m)"
      by (simp_all add: inner_def dict_get_def map_of_SomeD)
    with assms show ?thesis unfolding tables_inv_def by fastforce
  qed
  have old: "dict_get (context_totals m) c 0 = values_sum inner"
    by (simp add: dict_get_def inner_def tot values_sum_def split: option.splits)
  let ?m' = "m\<lparr>counts := dict_set (counts m) c (dd_incr inner t),
        context_totals := dd_incr (context_totals m) c\<rparr>"
  have A: "distinct (map fst (counts ?m'))"
    using assms by (simp add: tables_inv_def distinct_dict_set)
  have B: "\<forall>k. map_of (context_totals ?m') k = map_option values_sum (map_of (counts ?m') k)"
    by (simp add: map_of_dict_set map_of_dd_incr old values_sum_dd_incr tot)
  have new_ok: "\<forall>p \<in> set (dd_incr inner t). 1 \<le> snd p"
    using inner_ok by (intro dd_incr_positive) simp
  have C: "\<forall>e \<in> set (counts ?m').
      snd e \<noteq> [] \<and> distinct (map fst (snd e)) \<and> (\<forall>p \<in> set (snd e). 1 \<le> snd p)"
  proof
    fix e
    assume "e \<in> set (counts ?m')"
    then have "e = (c, dd_incr inner t) \<or> e \<in> set (counts m)"
      using set_dict_set [of "counts m" c "dd_incr inner t"] by auto
    then show "snd e \<noteq> [] \<and> distinct (map fst (snd e)) \<and> (\<forall>p \<in> set (snd e). 1 \<le> snd p)"
    proof
      assume "e = (c, dd_incr inner t)"
      with new_ok inner_ok show ?thesis
        by (simp add: dd_incr_nonempty distinct_dd_incr)
    next
      assume "e \<in> set (counts m)"
      with assms show ?thesis
        unfolding tables_inv_def by blast
    qed
  qed
  show ?thesis
    unfolding eq tables_inv_def using A B C by blast
qed

lemma n_count_window [simp]: "n (count_window tokens m idx) = n m"
  by (simp add: count_window_eq Let_def)

lemma tables_inv_update_counts: "tables_inv m \<Longrightarrow> tables_inv (update_counts m tokens)"
  unfolding update_counts_def by (rule foldl_invariant) (simp_all add: tables_inv_count_window)

lemma tables_inv_fit_sentence: "tables_inv m \<Longrightarrow> tables_inv (fit_sentence m s)"
  by (simp add: fit_sentence_def Let_def tables_inv_update_counts)

lemma tables_inv_reset: "tables_inv (reset_model_state m)"
  by (simp add: tables_inv_def reset_model_state_def)

lemma tables_inv_build_vocabulary: "tables_inv m \<Longrightarrow> tables_inv (build_vocabulary m ss)"
  by (simp add: tables_inv_def build_vocabulary_def Let_def)

lemma tables_inv_fit: "tables_inv (fit m text)"
proof -
  have "tables_inv (foldl fit_sentence (build_vocabulary (reset_model_state m) ss) ss)" for ss
    by (rule foldl_invariant)
      (simp_all add: tables_inv_fit_sentence tables_inv_build_vocabulary tables_inv_reset)
  then have "tables_inv ((foldl fit_sentence (build_vocabulary (reset_model_state m) ss) ss)
      \<lparr>trained := True\<rparr>)" for ss
    by (simp add: tables_inv_def)
  then show ?thesis
    by (simp add: fit_def Let_def tables_inv_reset)
qed


subsection \<open>A bigram model on a two-sentence corpus\<close>

text \<open>
  The model that \<^verbatim>\<open>TrigramModel(n=2, min_count=2)\<close> constructs, and what \<^verbatim>\<open>fit\<close> makes
  of the corpus \<^verbatim>\<open>"a b. a b."\<close>.  The concrete instances below are evaluated on it.
\<close>

definition bigram_model :: model where
  "bigram_model = \<lparr>n = 2, min_count = 2, counts = [], context_totals = [],
      vocab = {UNK_TOKEN, END_TOKEN, START_TOKEN}, trained = False\<rparr>"

lemma prepare_example: "prepare_sentences (strip ''a b. a b.'') = [[''a'', ''b''], [''a'', ''b'']]"
  by code_simp

lemma fit_example_counts:
  "counts (fit bigram_model ''a b. a b.'') =
     [([''<s>''], [(''a'', 2)]), ([''a''], [(''b'', 2)]), ([''b''], [(''</s>'', 2)])]"
  by code_simp

lemma fit_example_totals:
  "context_totals (fit bigram_model ''a b. a b.'') =
     [([''<s>''], 2), ([''a''], 2), ([''b''], 2)]"
  by code_simp

lemma fit_example_trained:
  "trained (fit bigram_model ''a b. a b.'')"
  by code_simp

subsection \<open>Counts and totals after training\<close>



lemma fit_pair_lookup:
  assumes "(c, d) \<in> set (counts (fit m text))"
  shows "map_of (counts (fit m text)) c = Some d"
    and "map_of (context_totals (fit m text)) c = Some (values_sum d)"
    and "d \<noteq> []" and "\<forall>p \<in> set d. 1 \<le> snd p"
proof -
  have inv: "tables_inv (fit m text)" by (rule tables_inv_fit)
  then show 1: "map_of (counts (fit m text)) c = Some d"
    using assms by (simp add: tables_inv_def)
  from inv have "map_of (context_totals (fit m text)) c =
      map_option values_sum (map_of (counts (fit m text)) c)"
    unfolding tables_inv_def by blast
  with 1 show "map_of (context_totals (fit m text)) c = Some (values_sum d)" by simp
  from inv assms show "d \<noteq> []" and "\<forall>p \<in> set d. 1 \<le> snd p"
    unfolding tables_inv_def by fastforce+
qed

text \<open>
  Claim C1.  After \<^verbatim>\<open>fit\<close> on any text, every context of the transition table has an
  entry in the table of totals, and that entry is the sum of the context's next-token
  counts.  The order \<open>n\<close> is at least 2, as the constructor guarantees.
\<close>

theorem fit_counts_sum_total:
  assumes "2 \<le> n m" and "(c, d) \<in> set (counts (fit m text))"
  shows "map_of (context_totals (fit m text)) c = Some (values_sum d)"
  using assms(2) by (rule fit_pair_lookup(2))

text \<open>The instance of C1 at the bigram model, the corpus \<^verbatim>\<open>"a b. a b."\<close> and the start context.\<close>

theorem fit_counts_sum_total_witness:
  "2 \<le> n bigram_model \<and>
   ([''<s>''], [(''a'', 2)]) \<in> set (counts (fit bigram_model ''a b. a b.'')) \<and>
   map_of (context_totals (fit bigram_model ''a b. a b.'')) [''<s>''] = Some (values_sum [(''a'', 2)])"
proof -
  have h1: "2 \<le> n bigram_model" by (simp add: bigram_model_def)
  have h2: "([''<s>''], [(''a'', 2)]) \<in> set (counts (fit bigram_model ''a b. a b.''))"
    by (simp add: fit_example_counts)
  from h1 h2 fit_counts_sum_total [OF h1 h2] show ?thesis by simp
qed



subsection \<open>Training starts from scratch\<close>

lemma fit_sentence_config: "n (fit_sentence m s) = n m \<and> min_count (fit_sentence m s) = min_count m"
proof -
  have "n (foldl (count_window ts) m is) = n m \<and> min_count (foldl (count_window ts) m is) = min_count m"
    for ts "is"
    by (rule foldl_invariant [where P = "\<lambda>x. n x = n m \<and> min_count x = min_count m"])
      (simp_all add: count_window_eq Let_def)
  then show ?thesis
    by (simp add: fit_sentence_def update_counts_def Let_def)
qed

lemma fit_config: "n (fit m text) = n m \<and> min_count (fit m text) = min_count m"
proof -
  have "n (foldl fit_sentence (build_vocabulary (reset_model_state m) ss) ss) = n m \<and>
        min_count (foldl fit_sentence (build_vocabulary (reset_model_state m) ss) ss) = min_count m"
    for ss
    by (rule foldl_invariant [where P = "\<lambda>x. n x = n m \<and> min_count x = min_count m"])
      (simp_all add: fit_sentence_config build_vocabulary_def reset_model_state_def Let_def)
  then show ?thesis
    by (simp add: fit_def Let_def reset_model_state_def)
qed

lemma reset_model_state_config:
  "n a = n b \<Longrightarrow> min_count a = min_count b \<Longrightarrow> reset_model_state a = reset_model_state b"
  by (simp add: reset_model_state_def)

lemma fit_config_only:
  "n a = n b \<Longrightarrow> min_count a = min_count b \<Longrightarrow> fit a text = fit b text"
  using reset_model_state_config [of a b] by (simp add: fit_def)

text \<open>
  Claim C8.  Training twice leaves the state that training a freshly constructed model
  with the same \<open>n\<close> and \<open>min_count\<close> on the second text alone gives: vocabulary, both
  tables and the flag are equal, since the whole records are.
\<close>

theorem fit_full_reset:
  assumes "TrigramModel (n m) (min_count m) = Inr fresh"
  shows "fit (fit m t1) t2 = fit fresh t2"
proof -
  from assms have "n fresh = n m" and "min_count fresh = min_count m"
    by (auto simp: TrigramModel_def split: if_splits)
  then show ?thesis
    by (intro fit_config_only) (simp_all add: fit_config)
qed

text \<open>
  The instance of C8 at two corpora whose tables differ: the first training leaves no
  trace.
\<close>

theorem fit_full_reset_witness:
  "TrigramModel (n bigram_model) (min_count bigram_model) = Inr bigram_model \<and>
   fit (fit bigram_model ''x y. x z.'') ''a b. a b.'' = fit bigram_model ''a b. a b.'' \<and>
   counts (fit bigram_model ''x y. x z.'') \<noteq> counts (fit bigram_model ''a b. a b.'')"
proof -
  have h: "TrigramModel (n bigram_model) (min_count bigram_model) = Inr bigram_model"
    by (simp add: bigram_model_def TrigramModel_def)
  have "counts (fit bigram_model ''x y. x z.'') \<noteq> counts (fit bigram_model ''a b. a b.'')"
    by code_simp
  with h fit_full_reset [OF h, of "''x y. x z.''" "''a b. a b.''"] show ?thesis by simp
qed

subsection \<open>The bigram scenario\<close>

text \<open>
  Claim C6.  The model constructed with \<open>n = 2\<close> and \<open>min_count = 2\<close>, trained on the
  corpus \<^verbatim>\<open>"a b. a b."\<close>, maps the context of the start marker only to \<^verbatim>\<open>a\<close> with count
  2, the context \<^verbatim>\<open>("a",)\<close> only to \<^verbatim>\<open>b\<close> with count 2 and the context \<^verbatim>\<open>("b",)\<close> only to
  the end marker with count 2.
\<close>

theorem bigram_scenario:
  "TrigramModel 2 2 = Inr bigram_model \<and>
   map_of (counts (fit bigram_model ''a b. a b.'')) [START_TOKEN] = Some [(''a'', 2)] \<and>
   map_of (counts (fit bigram_model ''a b. a b.'')) [''a''] = Some [(''b'', 2)] \<and>
   map_of (counts (fit bigram_model ''a b. a b.'')) [''b''] = Some [(END_TOKEN, 2)]"
proof -
  have "TrigramModel 2 2 = Inr bigram_model"
    by (simp add: TrigramModel_def bigram_model_def)
  then show ?thesis
    by (simp add: fit_example_counts START_TOKEN_def END_TOKEN_def)
qed

subsection \<open>Blank input\<close>

lemma dropWhile_all: "\<forall>x \<in> set xs. P x \<Longrightarrow> dropWhile P xs = []"
  by (induction xs) auto

lemma strip_blank: "\<forall>ch \<in> set text. is_space ch \<Longrightarrow> strip text = []"
proof -
  assume "\<forall>ch \<in> set text. is_space ch"
  then have blank: "dropWhile is_space text = []"
    by (rule dropWhile_all)
  show ?thesis
    unfolding strip_def blank by simp
qed

text \<open>
  Claim C3.  On the empty string and on any string of white space only, \<^verbatim>\<open>fit\<close> returns
  the reset model: not trained, both tables empty.  It has no failing branch.  The next
  \<^verbatim>\<open>generate\<close> returns the empty string and leaves model and generator as they were.
\<close>

theorem fit_blank_untrained:
  assumes "\<forall>ch \<in> set text. is_space ch"
  shows "fit m text = reset_model_state m \<and> \<not> trained (fit m text) \<and>
         counts (fit m text) = [] \<and> context_totals (fit m text) = [] \<and>
         generate U (fit m text) max_length g = ([], fit m text, g)"
proof -
  from assms have "fit m text = reset_model_state m"
    by (simp add: fit_def strip_blank)
  then show ?thesis
    by (simp add: reset_model_state_def generate_def)
qed

definition blank_text :: string where
  "blank_text = [CHR '' '', CHR 0x09, CHR 0x0A]"

definition trained_bigram :: model where
  "trained_bigram = fit bigram_model ''a b. a b.''"

text \<open>
  The instance of C3 at a model that was trained before and a text of a space, a tab and
  a line feed.
\<close>

theorem fit_blank_untrained_witness:
  "blank_text = [CHR '' '', CHR 0x09, CHR 0x0A] \<and>
   is_space CHR '' '' \<and> is_space CHR 0x09 \<and> is_space CHR 0x0A \<and>
   trained trained_bigram \<and>
   fit trained_bigram blank_text = reset_model_state trained_bigram \<and>
   \<not> trained (fit trained_bigram blank_text) \<and>
   counts (fit trained_bigram blank_text) = [] \<and>
   context_totals (fit trained_bigram blank_text) = [] \<and>
   generate (\<lambda>(g::nat) total. (0, g)) (fit trained_bigram blank_text) 50 0 =
     ([], fit trained_bigram blank_text, 0)"
proof -
  have sp: "is_space CHR '' '' \<and> is_space CHR 0x09 \<and> is_space CHR 0x0A"
    by (simp add: is_space_def)
  then have h: "\<forall>ch \<in> set blank_text. is_space ch"
    by (simp add: blank_text_def)
  have "trained trained_bigram"
    by (simp add: trained_bigram_def fit_example_trained)
  with sp blank_text_def h
    fit_blank_untrained [OF h, of trained_bigram "\<lambda>(g::nat) total. (0, g)" 50 0]
  show ?thesis by blast
qed

subsection \<open>Generation only reads the model\<close>

lemma sample_known_model:
  "has_key (counts m) c \<Longrightarrow> fst (snd (sample_known U m c g)) = m"
  by (auto simp: sample_known_def dd_get_def has_key_map_of Let_def split: option.splits prod.splits)

lemma sample_next_word_model: "fst (snd (sample_next_word U m c g)) = m"
  by (simp add: sample_next_word_def Let_def sample_known_model)

lemma generate_loop_model: "fst (snd (generate_loop U k m c acc g)) = m"
proof (induction k arbitrary: c acc g)
  case 0
  show ?case by simp
next
  case (Suc k)
  obtain w m1 g1 where s: "sample_next_word U m c g = (w, m1, g1)"
    by (cases "sample_next_word U m c g") auto
  with sample_next_word_model [of U m c g] have "m1 = m" by simp
  with s Suc show ?case by simp
qed

lemma generate_model: "fst (snd (generate U m max_length g)) = m"
  using generate_loop_model [of U "nat max_length" m "replicate (nat (n m - 1)) START_TOKEN" "[]" g]
  by (auto simp: generate_def split: prod.splits)

lemma generate_output:
  "fst (generate U m max_length g) =
     (if \<not> trained m \<or> counts m = [] then []
      else join '' '' (fst (generate_loop U (nat max_length) m
             (replicate (nat (n m - 1)) START_TOKEN) [] g)))"
  by (auto simp: generate_def split: prod.splits)

text \<open>
  Claim C7.  The random source is seeded to \<open>seed s\<close>, \<^verbatim>\<open>generate\<close> runs, the source is
  seeded to \<open>seed s\<close> again and \<^verbatim>\<open>generate\<close> runs on the model the first call left behind:
  both calls return the same string.  The first call may have consumed any number of
  draws; it has not changed the model.
\<close>

theorem generate_deterministic:
  "fst (generate U (fst (snd (generate U m max_length (seed s)))) max_length (seed s)) =
   fst (generate U m max_length (seed s))"
  by (simp add: generate_model)

subsection \<open>Two random sources and a run of the generator\<close>

text \<open>
  Concrete sources for the instances below: \<open>draw_half\<close> draws the middle of the interval,
  \<open>draw_over\<close> a number beyond its end (the case the last line of the sampler guards
  against); both count the draws in the generator state.
\<close>

definition draw_half :: "nat \<Rightarrow> int \<Rightarrow> real \<times> nat" where
  "draw_half g tot = (of_int tot / 2, Suc g)"


definition seed_nat :: "int \<Rightarrow> nat" where
  "seed_nat s = nat s"

lemma trained_bigram_eval:
  "counts trained_bigram = [([''<s>''], [(''a'', 2)]), ([''a''], [(''b'', 2)]), ([''b''], [(''</s>'', 2)])]"
  "context_totals trained_bigram = [([''<s>''], 2), ([''a''], 2), ([''b''], 2)]"
  "trained trained_bigram"
  by (simp_all add: trained_bigram_def fit_example_counts fit_example_totals fit_example_trained)

lemma trained_bigram_n: "n trained_bigram = 2"
  by (simp add: trained_bigram_def fit_config) (simp add: bigram_model_def)

lemma generate_example:
  "fst (generate draw_half trained_bigram 5 (seed_nat 7)) = ''a b''"
  by (simp add: generate_def trained_bigram_eval trained_bigram_n sample_next_word_def sample_known_def
      has_key_def dd_get_def dict_get_def values_sum_def draw_half_def seed_nat_def
      START_TOKEN_def END_TOKEN_def Let_def eval_nat_numeral)




text \<open>The instance of C7 at the trained bigram model: both calls return \<^verbatim>\<open>a b\<close>.\<close>

theorem generate_deterministic_witness:
  "fst (generate draw_half (fst (snd (generate draw_half trained_bigram 5 (seed_nat 7)))) 5 (seed_nat 7)) =
     fst (generate draw_half trained_bigram 5 (seed_nat 7)) \<and>
   fst (generate draw_half trained_bigram 5 (seed_nat 7)) = ''a b''"
  using generate_deterministic [of draw_half trained_bigram 5 seed_nat 7] generate_example
  by simp

subsection \<open>The fallbacks of the sampler\<close>

definition used_context :: "model \<Rightarrow> ngram_context \<Rightarrow> ngram_context" where
  "used_context m c =
     (if has_key (counts m) c then c else replicate (nat (n m - 1)) START_TOKEN)"

definition context_total :: "model \<Rightarrow> ngram_context \<Rightarrow> int" where
  "context_total m c = dict_get (context_totals m) c (values_sum (dict_get (counts m) c []))"

lemma sample_known_eq:
  assumes "has_key (counts m) c"
  shows "sample_known U m c g =
     (if context_total m c = 0 then (END_TOKEN, m, g)
      else (walk (dict_get (counts m) c []) 0 (fst (U g (context_total m c))), m,
            snd (U g (context_total m c))))"
  using assms
  by (auto simp: sample_known_def dd_get_def has_key_map_of Let_def context_total_def dict_get_def
      split: option.splits prod.splits)

lemma sample_next_word_eq:
  "sample_next_word U m c g =
     (if has_key (counts m) (used_context m c) then sample_known U m (used_context m c) g
      else (END_TOKEN, m, g))"
  by (simp add: sample_next_word_def used_context_def Let_def)

lemma walk_result: "walk d cum th \<in> insert END_TOKEN (set (map fst d))"
  by (induction d cum th rule: walk.induct) auto

lemma sample_next_word_result:
  "fst (sample_next_word U m c g) \<in>
     insert END_TOKEN (set (map fst (dict_get (counts m) (used_context m c) [])))"
  using walk_result [of "dict_get (counts m) (used_context m c) []" 0]
  by (simp add: sample_next_word_eq sample_known_eq)

subsection \<open>The sampler on floats\<close>

text \<open>
  Lines 97 to 102 of \<^verbatim>\<open>_sample_next_word\<close> compute on floats: \<^verbatim>\<open>random.uniform(0, total)\<close>
  multiplies the integer \<^verbatim>\<open>total\<close> with a float, and \<^verbatim>\<open>cumulative += count\<close> adds an integer to
  a float.  Python converts the integer operand to a float first.  The conversion raises
  \<^verbatim>\<open>OverflowError\<close> for an integer whose magnitude is \<open>2 ^ 1024 - 2 ^ 970\<close> or more, and
  otherwise gives the nearest integer with 53 significant bits, a tie going to the even
  one.  The sum of two floats is rounded the same way and becomes an infinity beyond that
  magnitude; it does not raise.  The running sum starts at 0 and takes integers, so it is
  an integer or an infinity.  \<^verbatim>\<open>random.uniform\<close> is \<^verbatim>\<open>a + (b - a) * self.random()\<close>: it has
  advanced the generator when the conversion of \<^verbatim>\<open>total\<close> raises.  The number it draws
  for a \<^verbatim>\<open>total\<close> in range is still the parameter \<open>U\<close>, a finite real.
\<close>

datatype arith_error = OverflowError

datatype pyfloat = Finite int | PosInf | NegInf

definition float_limit :: int where
  \<comment> \<open>the least magnitude that has no float: half an ulp above the largest float\<close>
  "float_limit = 2 ^ 1024 - 2 ^ 970"

function ulp_exp :: "int \<Rightarrow> nat" where
  \<comment> \<open>the number of low bits that do not fit into 53 significant bits\<close>
  "ulp_exp a = (if a < 2 ^ 53 then 0 else Suc (ulp_exp (a div 2)))"
  by pat_completeness auto
termination
  by (relation "measure nat") auto

declare ulp_exp.simps [simp del]

definition round_double :: "int \<Rightarrow> int" where
  \<comment> \<open>the nearest integer with 53 significant bits, a tie to the even significand\<close>
  "round_double x =
     (let a = \<bar>x\<bar>; e = ulp_exp a; q = a div 2 ^ e; r = a mod 2 ^ e;
          q1 = (if 2 * r > 2 ^ e \<or> (2 * r = 2 ^ e \<and> odd q) then q + 1 else q)
      in sgn x * (q1 * 2 ^ e))"

definition float_of_int :: "int \<Rightarrow> arith_error + int" where
  \<comment> \<open>the conversion of an integer operand; the float it gives is an integer\<close>
  "float_of_int x =
     (if \<bar>x\<bar> \<ge> float_limit then Inl OverflowError else Inr (round_double x))"

fun float_add :: "pyfloat \<Rightarrow> int \<Rightarrow> pyfloat" where
  \<comment> \<open>\<^verbatim>\<open>cumulative + y\<close> for a finite float \<open>y\<close>\<close>
  "float_add (Finite c) y =
     (if c + y \<ge> float_limit then PosInf
      else if c + y \<le> - float_limit then NegInf
      else Finite (round_double (c + y)))"
| "float_add PosInf y = PosInf"
| "float_add NegInf y = NegInf"

fun float_ge :: "pyfloat \<Rightarrow> real \<Rightarrow> bool" where
  \<comment> \<open>\<^verbatim>\<open>cumulative >= threshold\<close>\<close>
  "float_ge (Finite c) t = (of_int c \<ge> t)"
| "float_ge PosInf t = True"
| "float_ge NegInf t = False"

fun walk_float :: "(string, int) dict \<Rightarrow> pyfloat \<Rightarrow> real \<Rightarrow> arith_error + string" where
  "walk_float [] cumulative threshold = Inr END_TOKEN"
| "walk_float ((word, count) # rest) cumulative threshold =
     (case float_of_int count of
        Inl e \<Rightarrow> Inl e
      | Inr y \<Rightarrow>
          if float_ge (float_add cumulative y) threshold then Inr word
          else walk_float rest (float_add cumulative y) threshold)"

definition sample_known_float ::
  "('g \<Rightarrow> int \<Rightarrow> real \<times> 'g) \<Rightarrow> model \<Rightarrow> ngram_context \<Rightarrow> 'g
     \<Rightarrow> (arith_error + string) \<times> model \<times> 'g" where
  "sample_known_float U m context g =
     (case dd_get (counts m) [] context of
        (context_counts, counts1) \<Rightarrow>
          (let m1 = m\<lparr>counts := counts1\<rparr>;
               total = dict_get (context_totals m1) context (values_sum context_counts)
           in if total = 0 then (Inr END_TOKEN, m1, g)
              else case U g total of
                     (threshold, g1) \<Rightarrow>
                       (case float_of_int total of
                          Inl e \<Rightarrow> (Inl e, m1, g1)
                        | Inr _ \<Rightarrow> (walk_float context_counts (Finite 0) threshold, m1, g1))))"

definition sample_next_word_float ::
  "('g \<Rightarrow> int \<Rightarrow> real \<times> 'g) \<Rightarrow> model \<Rightarrow> ngram_context \<Rightarrow> 'g
     \<Rightarrow> (arith_error + string) \<times> model \<times> 'g" where
  "sample_next_word_float U m context g =
     (if \<not> has_key (counts m) context then
        (let context1 = replicate (nat (n m - 1)) START_TOKEN
         in if \<not> has_key (counts m) context1 then (Inr END_TOKEN, m, g)
            else sample_known_float U m context1 g)
      else sample_known_float U m context g)"

text \<open>Rounding at work: an odd integer above \<open>2 ^ 53\<close> is not a float.\<close>

lemma round_double_examples:
  "round_double 12345 = 12345"
  "round_double (2 ^ 53 + 1) = 2 ^ 53"
  "round_double (2 ^ 53 + 3) = 2 ^ 53 + 4"
  "round_double (2 ^ 54 + 2) = 2 ^ 54"
  "round_double (2 ^ 54 + 6) = 2 ^ 54 + 8"
  "round_double (2 ^ 54 + 3) = 2 ^ 54 + 4"
  "round_double (- (2 ^ 53 + 3)) = - (2 ^ 53 + 4)"
  by code_simp+

lemma walk_float_rounding:
  "walk_float [(''a'', 3), (''b'', 2 ^ 53)] (Finite 0) (2 ^ 53 + 4) = Inr ''b''"
  by code_simp


lemma ulp_exp_small: "a < 2 ^ 53 \<Longrightarrow> ulp_exp a = 0"
  by (subst ulp_exp.simps) simp

lemma round_double_exact:
  assumes "\<bar>x\<bar> < 2 ^ 53"
  shows "round_double x = x"
proof -
  from assms have "ulp_exp \<bar>x\<bar> = 0" by (rule ulp_exp_small)
  then show ?thesis
    by (simp add: round_double_def Let_def mult_sgn_abs)
qed

lemma float_limit_large: "2 ^ 53 < float_limit"
  by (simp add: float_limit_def)

lemma float_of_int_in_range: "\<bar>x\<bar> < float_limit \<Longrightarrow> float_of_int x = Inr (round_double x)"
  by (simp add: float_of_int_def)



lemma walk_float_exact:
  assumes "\<forall>i < length d. \<bar>snd (d ! i)\<bar> < 2 ^ 53 \<and> \<bar>c + values_sum (take (Suc i) d)\<bar> < 2 ^ 53"
  shows "walk_float d (Finite c) threshold = Inr (walk d (of_int c) threshold)"
  using assms
proof (induction d arbitrary: c)
  case Nil
  show ?case by simp
next
  case (Cons p rest)
  obtain word count where p: "p = (word, count)" by (cases p)
  from Cons.prems p have small: "\<bar>count\<bar> < 2 ^ 53" and sum: "\<bar>c + count\<bar> < 2 ^ 53"
    by (auto simp: values_sum_def dest: spec [of _ 0])
  from small float_limit_large have conv: "float_of_int count = Inr count"
    by (simp add: float_of_int_def round_double_exact)
  from sum float_limit_large have "c + count < float_limit" and "- float_limit < c + count"
    by linarith+
  with sum have add: "float_add (Finite c) count = Finite (c + count)"
    by (simp add: round_double_exact)
  have "\<forall>i < length rest. \<bar>snd (rest ! i)\<bar> < 2 ^ 53 \<and>
      \<bar>(c + count) + values_sum (take (Suc i) rest)\<bar> < 2 ^ 53"
  proof (intro allI impI)
    fix i assume "i < length rest"
    with Cons.prems p show "\<bar>snd (rest ! i)\<bar> < 2 ^ 53 \<and>
        \<bar>(c + count) + values_sum (take (Suc i) rest)\<bar> < 2 ^ 53"
      by (auto simp: values_sum_def add.assoc dest: spec [of _ "Suc i"])
  qed
  then have "walk_float rest (Finite (c + count)) threshold =
      Inr (walk rest (of_int (c + count)) threshold)"
    by (rule Cons.IH)
  with p conv add show ?case by simp
qed

lemma sample_known_float_eq:
  assumes "has_key (counts m) c"
  shows "sample_known_float U m c g =
     (if context_total m c = 0 then (Inr END_TOKEN, m, g)
      else (case float_of_int (context_total m c) of
              Inl e \<Rightarrow> Inl e
            | Inr _ \<Rightarrow> walk_float (dict_get (counts m) c []) (Finite 0)
                        (fst (U g (context_total m c))),
            m, snd (U g (context_total m c))))"
  using assms
  by (auto simp: sample_known_float_def dd_get_def has_key_map_of Let_def context_total_def
      dict_get_def split: option.splits prod.splits sum.splits)

lemma sample_next_word_float_eq:
  "sample_next_word_float U m c g =
     (if has_key (counts m) (used_context m c) then sample_known_float U m (used_context m c) g
      else (Inr END_TOKEN, m, g))"
  by (simp add: sample_next_word_float_def used_context_def Let_def)


text \<open>
  Where the total is in the float range and the counts and their partial sums are below
  \<open>2 ^ 53\<close>, the sampler on floats returns what the sampler on real numbers returns.
\<close>

lemma sample_next_word_float_exact:
  assumes "has_key (counts m) (used_context m c)"
    and "\<bar>context_total m (used_context m c)\<bar> < float_limit"
    and "\<forall>i < length (dict_get (counts m) (used_context m c) []).
           \<bar>snd (dict_get (counts m) (used_context m c) [] ! i)\<bar> < 2 ^ 53 \<and>
           \<bar>values_sum (take (Suc i) (dict_get (counts m) (used_context m c) []))\<bar> < 2 ^ 53"
  shows "sample_next_word_float U m c g =
     (Inr (fst (sample_next_word U m c g)), snd (sample_next_word U m c g))"
proof -
  from assms(3) have "walk_float (dict_get (counts m) (used_context m c) []) (Finite 0) t =
      Inr (walk (dict_get (counts m) (used_context m c) []) (of_int 0) t)" for t
    by (intro walk_float_exact) simp
  with assms(1,2) show ?thesis
    by (simp add: sample_next_word_float_eq sample_known_float_eq sample_next_word_eq
        sample_known_eq float_of_int_in_range)
qed





subsection \<open>What the generator can emit\<close>

text \<open>
  The visible tokens of an output string are its pieces between single spaces,
  \<^verbatim>\<open>s.split(" ")\<close>.  A token is emittable when it consists of word characters, or is the
  unknown marker or the end marker; every target that training counts is emittable.
\<close>

fun split_on :: "char \<Rightarrow> string \<Rightarrow> string list" where
  "split_on sep [] = [[]]"
| "split_on sep (c # cs) =
     (if c = sep then [] # split_on sep cs
      else case split_on sep cs of [] \<Rightarrow> [[c]] | p # ps \<Rightarrow> (c # p) # ps)"

definition emittable :: "string \<Rightarrow> bool" where
  "emittable t \<longleftrightarrow> (\<forall>ch \<in> set t. is_word ch) \<or> t = UNK_TOKEN \<or> t = END_TOKEN"

definition targets_ok :: "model \<Rightarrow> bool" where
  "targets_ok m \<longleftrightarrow> (\<forall>e \<in> set (counts m). \<forall>p \<in> set (snd e). emittable (fst p))"

lemma split_on_no_sep: "sep \<notin> set t \<Longrightarrow> split_on sep t = [t]"
  by (induction t) auto

lemma split_on_append:
  "sep \<notin> set t \<Longrightarrow> split_on sep (t @ sep # rest) = t # split_on sep rest"
  by (induction t) auto

lemma split_on_join:
  "ts \<noteq> [] \<Longrightarrow> \<forall>t \<in> set ts. sep \<notin> set t \<Longrightarrow> split_on sep (join [sep] ts) = ts"
  by (induction "[sep]" ts rule: join.induct) (simp_all add: split_on_no_sep split_on_append)

lemma findall_words_tokens:
  "t \<in> set (findall_words s) \<Longrightarrow> t \<noteq> [] \<and> (\<forall>ch \<in> set t. is_word ch)"
proof (induction s rule: findall_words.induct)
  case (1 s)
  define s' where "s' = dropWhile (\<lambda>c. \<not> is_word c) s"
  have unf: "findall_words s =
      (if s' = [] then [] else takeWhile is_word s' # findall_words (dropWhile is_word s'))"
    unfolding s'_def by (subst findall_words.simps) (simp only: Let_def)
  show ?case
  proof (cases "s' = []")
    case True
    with "1.prems" unf show ?thesis
      by simp
  next
    case False
    with "1.prems" unf
    have "t = takeWhile is_word s' \<or> t \<in> set (findall_words (dropWhile is_word s'))"
      by simp
    then show ?thesis
    proof
      assume t: "t = takeWhile is_word s'"
      from False have "is_word (hd s')"
        using hd_dropWhile [of "\<lambda>c. \<not> is_word c" s] by (simp add: s'_def)
      with False have "takeWhile is_word s' \<noteq> []"
        by (cases s') auto
      with t show ?thesis
        by (auto dest: set_takeWhileD)
    next
      assume "t \<in> set (findall_words (dropWhile is_word s'))"
      then show ?thesis
        by (rule "1.IH" [OF s'_def False])
    qed
  qed
qed

lemma prepare_sentences_tokens:
  "s \<in> set (prepare_sentences txt) \<Longrightarrow> t \<in> set s \<Longrightarrow> \<forall>ch \<in> set t. is_word ch"
  by (auto simp: prepare_sentences_def Let_def dest: findall_words_tokens)

lemma emittable_not_marker:
  assumes "emittable t" and "t \<noteq> END_TOKEN"
  shows "t \<noteq> START_TOKEN" and "CHR '' '' \<notin> set t"
proof -
  have "\<not> is_word CHR ''<''" and "\<not> is_word CHR '' ''"
    by (simp_all add: is_word_def)
  with assms show "t \<noteq> START_TOKEN" and "CHR '' '' \<notin> set t"
    by (auto simp: emittable_def START_TOKEN_def UNK_TOKEN_def)
qed

lemma foldl_invariant_set:
  "P a \<Longrightarrow> (\<And>b x. x \<in> set xs \<Longrightarrow> P b \<Longrightarrow> P (f b x)) \<Longrightarrow> P (foldl f a xs)"
  by (induction xs arbitrary: a) auto

lemma set_dd_incr: "set (dd_incr d k) \<subseteq> insert (k, dict_get d k 0 + 1) (set d)"
  by (simp add: dd_incr_eq set_dict_set)

lemma dict_get_default_or_member:
  "dict_get d k dflt = dflt \<or> (k, dict_get d k dflt) \<in> set d"
  by (auto simp: dict_get_def split: option.splits dest: map_of_SomeD)

lemma targets_ok_count_window:
  assumes "targets_ok b" and "emittable (tokens ! (idx + nat (n b - 1)))"
  shows "targets_ok (count_window tokens b idx)"
proof -
  define c where "c = take (nat (n b - 1)) (drop idx tokens)"
  define t where "t = tokens ! (idx + nat (n b - 1))"
  define inner where "inner = dict_get (counts b) c []"
  have cs: "counts (count_window tokens b idx) = dict_set (counts b) c (dd_incr inner t)"
    by (simp add: count_window_eq c_def t_def inner_def Let_def)
  have inner_ok: "\<forall>p \<in> set inner. emittable (fst p)"
    using dict_get_default_or_member [of "counts b" c "[]"] assms(1)
    unfolding inner_def targets_ok_def by fastforce
  have new_ok: "\<forall>p \<in> set (dd_incr inner t). emittable (fst p)"
  proof
    fix p assume "p \<in> set (dd_incr inner t)"
    with set_dd_incr [of inner t] have "fst p = t \<or> p \<in> set inner" by auto
    with inner_ok assms(2) show "emittable (fst p)" by (auto simp: t_def)
  qed
  show ?thesis
    unfolding targets_ok_def cs
  proof
    fix e assume "e \<in> set (dict_set (counts b) c (dd_incr inner t))"
    with set_dict_set [of "counts b" c "dd_incr inner t"]
    have "e = (c, dd_incr inner t) \<or> e \<in> set (counts b)" by auto
    with new_ok assms(1) show "\<forall>p \<in> set (snd e). emittable (fst p)"
      unfolding targets_ok_def by auto
  qed
qed

lemma padded_target:
  assumes "1 \<le> k" 
    and "idx < nat (int (length (replicate (nat (k - 1)) x @ ys @ [z])) - (k - 1))"
  shows "(replicate (nat (k - 1)) x @ ys @ [z]) ! (idx + nat (k - 1)) \<in> set (ys @ [z])"
proof -
  from assms have "idx < length (ys @ [z])" by simp
  then have "(ys @ [z]) ! idx \<in> set (ys @ [z])" by (rule nth_mem)
  moreover have "(replicate (nat (k - 1)) x @ ys @ [z]) ! (idx + nat (k - 1)) = (ys @ [z]) ! idx"
    by (simp add: nth_append)
  ultimately show ?thesis by simp
qed

lemma targets_ok_fit_sentence:
  assumes "1 \<le> n m" and "targets_ok m" and "\<forall>t \<in> set s. \<forall>ch \<in> set t. is_word ch"
  shows "targets_ok (fit_sentence m s)"
proof -
  define padded where
    "padded = replicate (nat (n m - 1)) START_TOKEN @ normalize_sentence m s @ [END_TOKEN]"
  have norm: "\<forall>t \<in> set (normalize_sentence m s @ [END_TOKEN]). emittable t"
    using assms(3) by (auto simp: normalize_sentence_def emittable_def)
  have "n (foldl (count_window padded) m [0 ..< nat (int (length padded) - (n m - 1))]) = n m \<and>
        targets_ok (foldl (count_window padded) m [0 ..< nat (int (length padded) - (n m - 1))])"
  proof (rule foldl_invariant_set [where P = "\<lambda>b. n b = n m \<and> targets_ok b"])
    show "n m = n m \<and> targets_ok m" using assms(2) by simp
  next
    fix b idx
    assume idx: "idx \<in> set [0 ..< nat (int (length padded) - (n m - 1))]"
      and b: "n b = n m \<and> targets_ok b"
    from idx have "idx < nat (int (length padded) - (n m - 1))" by simp
    with assms(1) have "padded ! (idx + nat (n m - 1)) \<in> set (normalize_sentence m s @ [END_TOKEN])"
      unfolding padded_def by (intro padded_target) 
    with norm have "emittable (padded ! (idx + nat (n m - 1)))" by blast
    with b show "n (count_window padded b idx) = n m \<and> targets_ok (count_window padded b idx)"
      by (simp add: targets_ok_count_window)
  qed
  then show ?thesis
    by (simp add: fit_sentence_def update_counts_def padded_def Let_def)
qed

lemma targets_ok_fit:
  assumes "1 \<le> n m"
  shows "targets_ok (fit m txt)"
proof -
  define ss where "ss = prepare_sentences (strip txt)"
  define m0 where "m0 = build_vocabulary (reset_model_state m) ss"
  have "n (foldl fit_sentence m0 ss) = n m \<and> targets_ok (foldl fit_sentence m0 ss)"
  proof (rule foldl_invariant_set [where P = "\<lambda>b. n b = n m \<and> targets_ok b"])
    show "n m0 = n m \<and> targets_ok m0"
      by (simp add: m0_def build_vocabulary_def reset_model_state_def Let_def targets_ok_def)
  next
    fix b s
    assume s: "s \<in> set ss" and b: "n b = n m \<and> targets_ok b"
    from s have "\<forall>t \<in> set s. \<forall>ch \<in> set t. is_word ch"
      unfolding ss_def by (blast dest: prepare_sentences_tokens)
    with b assms show "n (fit_sentence b s) = n m \<and> targets_ok (fit_sentence b s)"
      by (simp add: targets_ok_fit_sentence fit_sentence_config)
  qed
  then have "targets_ok ((foldl fit_sentence m0 ss)\<lparr>trained := True\<rparr>)"
    by (simp add: targets_ok_def)
  moreover have "targets_ok (reset_model_state m)"
    by (simp add: targets_ok_def reset_model_state_def)
  ultimately show ?thesis
    by (simp add: fit_def Let_def ss_def m0_def)
qed

lemma sample_next_word_emittable:
  assumes "targets_ok m"
  shows "emittable (fst (sample_next_word U m c g))"
proof -
  have "\<forall>p \<in> set (dict_get (counts m) (used_context m c) []). emittable (fst p)"
    using dict_get_default_or_member [of "counts m" "used_context m c" "[]"] assms
    unfolding targets_ok_def by fastforce
  with sample_next_word_result [of U m c g] show ?thesis
    by (auto simp: emittable_def)
qed

lemma generate_loop_tokens:
  assumes "targets_ok m" and "\<forall>t \<in> set acc. emittable t \<and> t \<noteq> END_TOKEN"
  shows "\<forall>t \<in> set (fst (generate_loop U k m c acc g)). emittable t \<and> t \<noteq> END_TOKEN"
  using assms(2)
proof (induction k arbitrary: c acc g)
  case 0
  then show ?case by simp
next
  case (Suc k)
  obtain w m1 g1 where s: "sample_next_word U m c g = (w, m1, g1)"
    by (cases "sample_next_word U m c g") auto
  with sample_next_word_model [of U m c g] have m1: "m1 = m" by simp
  from s sample_next_word_emittable [OF assms(1), of U c g] have w: "emittable w" by simp
  show ?case
  proof (cases "w = END_TOKEN")
    case True
    with s Suc.prems show ?thesis by simp
  next
    case False
    with w Suc.prems have "\<forall>t \<in> set (acc @ [w]). emittable t \<and> t \<noteq> END_TOKEN" by simp
    then have "\<forall>t \<in> set (fst (generate_loop U k m (drop 1 c @ [w]) (acc @ [w]) g1)).
        emittable t \<and> t \<noteq> END_TOKEN"
      by (rule Suc.IH)
    with s m1 False show ?thesis by simp
  qed
qed

lemma join_tokens_visible:
  assumes "\<forall>t \<in> set ts. emittable t \<and> t \<noteq> END_TOKEN"
  shows "START_TOKEN \<notin> set (split_on CHR '' '' (join '' '' ts)) \<and>
         END_TOKEN \<notin> set (split_on CHR '' '' (join '' '' ts))"
proof (cases "ts = []")
  case True
  then show ?thesis by (simp add: START_TOKEN_def END_TOKEN_def)
next
  case False
  from assms have "\<forall>t \<in> set ts. CHR '' '' \<notin> set t"
    by (blast dest: emittable_not_marker(2))
  with False have "split_on CHR '' '' (join '' '' ts) = ts"
    by (simp add: split_on_join)
  with assms show ?thesis
    by (auto dest: emittable_not_marker(1))
qed

text \<open>
  Claim C4.  Whatever the text the model was trained on, the length bound and the random
  source, neither the start marker nor the end marker is among the visible tokens of the
  string that \<^verbatim>\<open>generate\<close> returns.
\<close>

theorem generate_no_markers:
  assumes "2 \<le> n m"
  shows "START_TOKEN \<notin> set (split_on CHR '' '' (fst (generate U (fit m txt) max_length g))) \<and>
         END_TOKEN \<notin> set (split_on CHR '' '' (fst (generate U (fit m txt) max_length g)))"
proof (cases "\<not> trained (fit m txt) \<or> counts (fit m txt) = []")
  case True
  then show ?thesis
    by (simp add: generate_def START_TOKEN_def END_TOKEN_def)
next
  case False
  from assms have "targets_ok (fit m txt)" by (intro targets_ok_fit) simp
  then have "\<forall>t \<in> set (fst (generate_loop U (nat max_length) (fit m txt)
      (replicate (nat (n (fit m txt) - 1)) START_TOKEN) [] g)). emittable t \<and> t \<noteq> END_TOKEN"
    by (intro generate_loop_tokens) simp_all
  then have "START_TOKEN \<notin> set (split_on CHR '' '' (join '' '' (fst (generate_loop U (nat max_length) (fit m txt)
      (replicate (nat (n (fit m txt) - 1)) START_TOKEN) [] g)))) \<and>
      END_TOKEN \<notin> set (split_on CHR '' '' (join '' '' (fst (generate_loop U (nat max_length) (fit m txt)
      (replicate (nat (n (fit m txt) - 1)) START_TOKEN) [] g))))"
    by (rule join_tokens_visible)
  with False show ?thesis
    by (simp add: generate_output)
qed

text \<open>The instance of C4 at the trained bigram model, whose output is \<^verbatim>\<open>a b\<close>.\<close>

theorem generate_no_markers_witness:
  "2 \<le> n bigram_model \<and>
   fst (generate draw_half (fit bigram_model ''a b. a b.'') 5 (seed_nat 7)) = ''a b'' \<and>
   START_TOKEN \<notin> set (split_on CHR '' '' (fst (generate draw_half (fit bigram_model ''a b. a b.'') 5 (seed_nat 7)))) \<and>
   END_TOKEN \<notin> set (split_on CHR '' '' (fst (generate draw_half (fit bigram_model ''a b. a b.'') 5 (seed_nat 7))))"
proof -
  have h: "2 \<le> n bigram_model" by (simp add: bigram_model_def)
  have "fst (generate draw_half (fit bigram_model ''a b. a b.'') 5 (seed_nat 7)) = ''a b''"
    using generate_example by (simp add: trained_bigram_def)
  with h generate_no_markers [OF h, of draw_half "''a b. a b.''" 5 "seed_nat 7"]
  show ?thesis by blast
qed

subsection \<open>The vocabulary\<close>

text \<open>
  The tokens of a corpus that occur at least \<open>k\<close> times, as the specification words it.
  \<^verbatim>\<open>_build_vocabulary\<close> computes them from a \<^verbatim>\<open>Counter\<close>.
\<close>

definition frequent_tokens :: "int \<Rightarrow> string list \<Rightarrow> string set" where
  "frequent_tokens k xs = set (filter (\<lambda>t. k \<le> int (count_list xs t)) xs)"

lemma has_key_dd_incr: "has_key (dd_incr d x) t \<longleftrightarrow> t = x \<or> has_key d t"
  by (auto simp: has_key_map_of map_of_dd_incr)

lemma dict_get_dd_incr:
  "dict_get (dd_incr d x) t 0 = (if t = x then dict_get d x 0 + 1 else dict_get d t 0)"
  by (simp add: dict_get_def map_of_dd_incr)

lemma map_of_foldl_dd_incr:
  "map_of (foldl dd_incr d xs) t =
     (if t \<in> set xs \<or> has_key d t then Some (dict_get d t 0 + int (count_list xs t)) else None)"
proof (induction xs arbitrary: d)
  case Nil
  show ?case by (auto simp: has_key_map_of dict_get_def)
next
  case (Cons x xs)
  show ?case
    by (simp add: Cons.IH has_key_dd_incr dict_get_dd_incr)
qed

lemma map_of_Counter:
  "map_of (Counter xs) t = (if t \<in> set xs then Some (int (count_list xs t)) else None)"
  by (simp add: Counter_def map_of_foldl_dd_incr has_key_def dict_get_def)

lemma distinct_Counter: "distinct (map fst (Counter xs))"
  unfolding Counter_def by (rule foldl_invariant) (simp_all add: distinct_dd_incr)

lemma set_Counter:
  "set (Counter xs) = {(t, c). t \<in> set xs \<and> c = int (count_list xs t)}"
proof -
  have "(t, c) \<in> set (Counter xs) \<longleftrightarrow> map_of (Counter xs) t = Some c" for t c
    using distinct_Counter [of xs] by simp
  then show ?thesis
    by (auto simp: map_of_Counter split: if_splits)
qed

lemma keys_Counter: "set (map fst (Counter xs)) = set xs"
  by (auto simp: set_Counter image_iff)

lemma kept_Counter:
  "set (map fst (filter (\<lambda>(token, count). count \<ge> k) (Counter xs))) = frequent_tokens k xs"
  by (auto simp: set_Counter frequent_tokens_def image_iff)

lemma vocab_build_vocabulary:
  "vocab (build_vocabulary m ss) =
     (if frequent_tokens (min_count m) (concat ss) = {} then set (concat ss)
      else frequent_tokens (min_count m) (concat ss)) \<union> {START_TOKEN, END_TOKEN, UNK_TOKEN}"
  unfolding build_vocabulary_def Let_def kept_Counter keys_Counter by simp

lemma vocab_fit_sentence: "vocab (fit_sentence m s) = vocab m"
proof -
  have "vocab (foldl (count_window ts) m js) = vocab m" for ts js
    by (rule foldl_invariant [where P = "\<lambda>x. vocab x = vocab m"])
      (simp_all add: count_window_eq Let_def)
  then show ?thesis
    by (simp add: fit_sentence_def update_counts_def Let_def)
qed

lemma prepare_sentences_Nil: "prepare_sentences [] = []"
  by code_simp

lemma vocab_fit:
  assumes "prepare_sentences (strip txt) \<noteq> []"
  shows "vocab (fit m txt) =
     vocab (build_vocabulary (reset_model_state m) (prepare_sentences (strip txt)))"
proof -
  define ss where "ss = prepare_sentences (strip txt)"
  have "vocab (foldl fit_sentence (build_vocabulary (reset_model_state m) ss) ss) =
      vocab (build_vocabulary (reset_model_state m) ss)"
    by (rule foldl_invariant
        [where P = "\<lambda>x. vocab x = vocab (build_vocabulary (reset_model_state m) ss)"])
      (simp_all add: vocab_fit_sentence)
  moreover from assms have "strip txt \<noteq> []"
    using prepare_sentences_Nil by auto
  ultimately show ?thesis
    using assms by (simp add: fit_def Let_def ss_def)
qed

text \<open>
  Claim C2.  When tokenizing the text leaves at least one sentence, the vocabulary after
  \<^verbatim>\<open>fit\<close> is the set of tokens that occur at least \<open>min_count\<close> times together with the
  three reserved tokens; when no token occurs that often, it is the set of all tokens of
  the corpus together with the three reserved tokens.
\<close>

theorem fit_vocabulary:
  assumes "2 \<le> n m" and "prepare_sentences (strip txt) \<noteq> []"
  shows
    "(frequent_tokens (min_count m) (concat (prepare_sentences (strip txt))) \<noteq> {} \<longrightarrow>
        vocab (fit m txt) =
          frequent_tokens (min_count m) (concat (prepare_sentences (strip txt))) \<union>
            {START_TOKEN, END_TOKEN, UNK_TOKEN}) \<and>
     (frequent_tokens (min_count m) (concat (prepare_sentences (strip txt))) = {} \<longrightarrow>
        vocab (fit m txt) =
          set (concat (prepare_sentences (strip txt))) \<union> {START_TOKEN, END_TOKEN, UNK_TOKEN})"
  by (simp add: vocab_fit [OF assms(2)] vocab_build_vocabulary reset_model_state_def)

lemma prepare_example_single:
  "prepare_sentences (strip ''a b c.'') = [[''a'', ''b'', ''c'']]"
  by code_simp

text \<open>
  The instances of C2: in \<^verbatim>\<open>"a b. a b."\<close> both tokens occur twice and are kept; in
  \<^verbatim>\<open>"a b c."\<close> no token occurs twice and all three are kept.
\<close>

theorem fit_vocabulary_witness:
  "2 \<le> n bigram_model \<and>
   prepare_sentences (strip ''a b. a b.'') = [[''a'', ''b''], [''a'', ''b'']] \<and>
   frequent_tokens 2 [''a'', ''b'', ''a'', ''b''] = {''a'', ''b''} \<and>
   vocab (fit bigram_model ''a b. a b.'') = {''a'', ''b''} \<union> {START_TOKEN, END_TOKEN, UNK_TOKEN} \<and>
   prepare_sentences (strip ''a b c.'') = [[''a'', ''b'', ''c'']] \<and>
   frequent_tokens 2 [''a'', ''b'', ''c''] = {} \<and>
   vocab (fit bigram_model ''a b c.'') = {''a'', ''b'', ''c''} \<union> {START_TOKEN, END_TOKEN, UNK_TOKEN}"
proof -
  have h: "2 \<le> n bigram_model" and mc: "min_count bigram_model = 2"
    by (simp_all add: bigram_model_def)
  have f1: "frequent_tokens 2 [''a'', ''b'', ''a'', ''b''] = {''a'', ''b''}"
    by (auto simp: frequent_tokens_def)
  have f2: "frequent_tokens 2 [''a'', ''b'', ''c''] = {}"
    by (simp add: frequent_tokens_def)
  have p1: "prepare_sentences (strip ''a b. a b.'') \<noteq> []"
    and p2: "prepare_sentences (strip ''a b c.'') \<noteq> []"
    by (simp_all add: prepare_example prepare_example_single)
  from fit_vocabulary [OF h p1] fit_vocabulary [OF h p2] h f1 f2
  show ?thesis
    by (simp add: prepare_example prepare_example_single mc)
qed

subsection \<open>Stripping the Project Gutenberg boilerplate\<close>

text \<open>
  \<^verbatim>\<open>utils.py\<close>.  \<^verbatim>\<open>str.find\<close> returns an index or \<open>-1\<close>; a slice takes integers, and a
  negative bound counts from the end of the string.
\<close>

definition START_FLAG :: string where
  "START_FLAG = ''*** START OF THE PROJECT GUTENBERG EBOOK''"

definition END_FLAG :: string where
  "END_FLAG = ''*** END OF THE PROJECT GUTENBERG EBOOK''"

fun find_at :: "string \<Rightarrow> string \<Rightarrow> nat \<Rightarrow> int" where
  \<comment> \<open>the lowest index, counted from \<open>i\<close>, at which \<open>sub\<close> starts in the rest of the string\<close>
  "find_at sub [] i = (if sub = [] then int i else - 1)"
| "find_at sub (c # cs) i =
     (if take (length sub) (c # cs) = sub then int i else find_at sub cs (Suc i))"

definition py_find :: "string \<Rightarrow> string \<Rightarrow> nat \<Rightarrow> int" where
  \<comment> \<open>\<^verbatim>\<open>s.find(sub, start)\<close> for \<open>start \<ge> 0\<close>: the index of the first occurrence, or \<open>-1\<close>\<close>
  "py_find s sub start =
     (if start > length s then - 1 else find_at sub (drop start s) start)"

definition py_slice :: "string \<Rightarrow> int \<Rightarrow> int \<Rightarrow> string" where
  \<comment> \<open>\<^verbatim>\<open>s[i:j]\<close>: a negative index counts from the end, an index out of range is clipped\<close>
  "py_slice s i j =
     (let len = int (length s);
          lo = (if i < 0 then max 0 (len + i) else min i len);
          hi = (if j < 0 then max 0 (len + j) else min j len)
      in take (nat (hi - lo)) (drop (nat lo) s))"

definition strip_gutenberg_header_footer :: "string \<Rightarrow> string" where
  "strip_gutenberg_header_footer raw_text =
     (if raw_text = [] then []
      else
        let lowered = lower raw_text;
            start_idx = py_find lowered (lower START_FLAG) 0;
            end_idx = py_find lowered (lower END_FLAG) 0;
            start_idx1 = (if start_idx \<noteq> - 1 then py_find lowered [CHR 0x0A] (nat start_idx) else 0);
            end_idx1 = (if end_idx = - 1 then int (length raw_text) else end_idx)
        in strip (py_slice raw_text start_idx1 end_idx1))"


text \<open>
  On a text with both marker lines the function keeps what lies between the line of the
  start marker and the end marker, without the white space around it.
\<close>

lemma strip_gutenberg_example:
  "strip_gutenberg_header_footer
     (''junk'' @ [CHR 0x0A] @ ''*** START OF THE PROJECT GUTENBERG EBOOK X ***'' @ [CHR 0x0A] @
      ''Body text.'' @ [CHR 0x0A] @ ''*** END OF THE PROJECT GUTENBERG EBOOK X ***'' @ [CHR 0x0A] @
      ''license'') = ''Body text.''"
  by code_simp

text \<open>
  Without a start marker the text is kept from its beginning; without an end marker, and
  with a line feed after the start marker, it is kept through its end.
\<close>

lemma py_slice_all: "py_slice s 0 (int (length s)) = s"
  by (simp add: py_slice_def)

lemma py_slice_from: "0 \<le> k \<Longrightarrow> py_slice s k (int (length s)) = drop (nat k) s"
  by (simp add: py_slice_def Let_def min_def)

lemma strip_gutenberg_no_markers:
  assumes "py_find (lower raw_text) (lower START_FLAG) 0 = - 1"
    and "py_find (lower raw_text) (lower END_FLAG) 0 = - 1"
  shows "strip_gutenberg_header_footer raw_text = strip raw_text"
  using assms by (cases "raw_text = []") (simp_all add: strip_gutenberg_header_footer_def py_slice_all strip_def)

lemma strip_gutenberg_no_start:
  assumes "raw_text \<noteq> []" and "py_find (lower raw_text) (lower START_FLAG) 0 = - 1"
    and "py_find (lower raw_text) (lower END_FLAG) 0 = e" and "e \<noteq> - 1"
  shows "strip_gutenberg_header_footer raw_text = strip (py_slice raw_text 0 e)"
  using assms by (simp add: strip_gutenberg_header_footer_def)

lemma strip_gutenberg_no_end:
  assumes "raw_text \<noteq> []" and "py_find (lower raw_text) (lower START_FLAG) 0 = s"
    and "s \<noteq> - 1" and "py_find (lower raw_text) [CHR 0x0A] (nat s) = k" and "0 \<le> k"
    and "py_find (lower raw_text) (lower END_FLAG) 0 = - 1"
  shows "strip_gutenberg_header_footer raw_text = strip (drop (nat k) raw_text)"
  using assms by (simp add: strip_gutenberg_header_footer_def py_slice_from)

text \<open>
  Claim C9.  The claim says that the content after the start marker is kept, through the
  end of the text when there is no end marker.  On a text whose start marker is followed
  by no line feed, the search for the line feed from \<^verbatim>\<open>start_idx\<close> on returns \<open>-1\<close>; the
  function uses it as the lower bound of the slice and returns the last character of the
  text alone.  The two
  searches for the markers are tested against \<open>-1\<close>, the search for the line feed is not.
\<close>

theorem strip_gutenberg_no_newline:
  "strip_gutenberg_header_footer ''*** START OF THE PROJECT GUTENBERG EBOOK hello world'' = ''d''"
  by code_simp

end
